theory Spec2Isabelle
  imports Main "HOL-Library.AList"
begin

section \<open>The rate limiter of \<open>src/lib/rateLimit.ts\<close>\<close>

subsection \<open>JavaScript values the module computes with\<close>

text \<open>
  Clock readings (\<open>Date.now()\<close>), window lengths and request counts are integers.
  Two places of the module can leave the integers: \<open>log.timestamps[0]\<close> of an empty
  array is \<open>undefined\<close>, and \<open>undefined + windowMs\<close> is \<open>NaN\<close>; the optional field
  \<open>blockUntil\<close> of a log is \<open>undefined\<close> until it is first assigned.
\<close>

datatype jsnum = Num int | NaN | Undefined

text \<open>\<open>xs[0]\<close> of a number array.\<close>

definition js_first :: "int list \<Rightarrow> jsnum" where
  "js_first xs = (case xs of [] \<Rightarrow> Undefined | x # _ \<Rightarrow> Num x)"

text \<open>\<open>v + w\<close> for a number \<open>w\<close>: anything but a number on the left gives \<open>NaN\<close>.\<close>

definition js_plus :: "jsnum \<Rightarrow> int \<Rightarrow> jsnum" where
  "js_plus v w = (case v of Num a \<Rightarrow> Num (a + w) | NaN \<Rightarrow> NaN | Undefined \<Rightarrow> NaN)"

text \<open>Truthiness: \<open>0\<close>, \<open>NaN\<close> and \<open>undefined\<close> are falsy.\<close>

definition js_truthy :: "jsnum \<Rightarrow> bool" where
  "js_truthy v = (case v of Num a \<Rightarrow> a \<noteq> 0 | NaN \<Rightarrow> False | Undefined \<Rightarrow> False)"

text \<open>\<open>v > n\<close>: a comparison with \<open>NaN\<close> or \<open>undefined\<close> is false.\<close>

definition js_gt :: "jsnum \<Rightarrow> int \<Rightarrow> bool" where
  "js_gt v n = (case v of Num a \<Rightarrow> a > n | NaN \<Rightarrow> False | Undefined \<Rightarrow> False)"

subsection \<open>Data model\<close>

record RateLimitConfig =
  maxRequests :: int
  windowMs :: int
  message :: "string option"

record RateLimitResult =
  allowed :: bool
  remaining :: int
  resetAt :: jsnum
  resultMessage :: "string option"

record RequestLog =
  timestamps :: "int list"
  blocked :: bool
  blockUntil :: jsnum

record RateLimitStatus =
  current :: int
  maxStatus :: int
  remainingStatus :: int
  resetAtStatus :: int

record RateLimitStats =
  totalKeys :: nat
  blockedCount :: nat

text \<open>
  The store is a JavaScript \<open>Map\<close> from identifiers to logs: an association list in
  insertion order, whose keys are pairwise different. \<open>Map.set\<close> overwrites the value of a
  present key in place and appends an absent one, which is \<open>AList.update\<close>.
\<close>

type_synonym store = "(string \<times> RequestLog) list"

definition store_get :: "store \<Rightarrow> string \<Rightarrow> RequestLog option" where
  "store_get s key = map_of s key"

definition store_set :: "store \<Rightarrow> string \<Rightarrow> RequestLog \<Rightarrow> store" where
  "store_set s key log = AList.update key log s"

definition store_delete :: "store \<Rightarrow> string \<Rightarrow> store" where
  "store_delete s key = AList.delete key s"

definition store_clear :: "store \<Rightarrow> store" where
  "store_clear s = []"

definition store_size :: "store \<Rightarrow> nat" where
  "store_size s = length s"

subsection \<open>The default policies\<close>

text \<open>
  \<open>DEFAULT_RATE_LIMITS\<close>, one definition per key. \<open>checkRateLimit\<close>,
  \<open>getRateLimitStatus\<close> and \<open>rateLimitMiddleware\<close> take the \<open>global\<close> one when the caller
  passes no policy; below the policy is always an argument.
\<close>

definition DEFAULT_RATE_LIMITS_global :: RateLimitConfig where
  "DEFAULT_RATE_LIMITS_global =
     \<lparr>maxRequests = 60, windowMs = 60 * 1000,
      message = Some ''Too many requests. Please try again later.''\<rparr>"

definition DEFAULT_RATE_LIMITS_upload :: RateLimitConfig where
  "DEFAULT_RATE_LIMITS_upload =
     \<lparr>maxRequests = 10, windowMs = 60 * 1000,
      message = Some ''Too many upload requests. Please wait before uploading again.''\<rparr>"

definition DEFAULT_RATE_LIMITS_ocr :: RateLimitConfig where
  "DEFAULT_RATE_LIMITS_ocr =
     \<lparr>maxRequests = 5, windowMs = 60 * 1000,
      message = Some ''Too many OCR requests. Please wait before processing more documents.''\<rparr>"

definition DEFAULT_RATE_LIMITS_api :: RateLimitConfig where
  "DEFAULT_RATE_LIMITS_api =
     \<lparr>maxRequests = 30, windowMs = 60 * 1000,
      message = Some ''API rate limit exceeded. Please slow down your requests.''\<rparr>"

subsection \<open>\<open>checkRateLimit\<close>\<close>

text \<open>The log a first-seen identifier starts with.\<close>

definition newLog :: RequestLog where
  "newLog = \<lparr>timestamps = [], blocked = False, blockUntil = Undefined\<rparr>"

text \<open>\<open>message || 'Rate limit exceeded. Please try again later.'\<close>: the empty string is falsy.\<close>

definition denialMessage :: "RateLimitConfig \<Rightarrow> string" where
  "denialMessage config =
     (case message config of
        None \<Rightarrow> ''Rate limit exceeded. Please try again later.''
      | Some m \<Rightarrow> if m = [] then ''Rate limit exceeded. Please try again later.'' else m)"

text \<open>
  \<open>log.blocked && log.blockUntil && log.blockUntil > now\<close>, the test that
  \<open>checkRateLimit\<close>, \<open>cleanup\<close> and \<open>getRateLimitStats\<close> each write out.
\<close>

definition isBlocked :: "RequestLog \<Rightarrow> int \<Rightarrow> bool" where
  "isBlocked log now \<longleftrightarrow> blocked log \<and> js_truthy (blockUntil log) \<and> js_gt (blockUntil log) now"

text \<open>
  The clock reading \<open>now\<close> is the value of \<open>Date.now()\<close> at the call; the store is passed
  in and returned. The blocked branch returns before any write. Both other branches end in
  \<open>store.set(identifier, log)\<close> with the purged timestamps.
\<close>

definition checkRateLimit :: "string \<Rightarrow> RateLimitConfig \<Rightarrow> int \<Rightarrow> store \<Rightarrow> RateLimitResult \<times> store" where
  "checkRateLimit identifier config now s =
     (let log = (case store_get s identifier of None \<Rightarrow> newLog | Some l \<Rightarrow> l) in
      if isBlocked log now then
        (\<lparr>allowed = False, remaining = 0, resetAt = blockUntil log,
          resultMessage = Some (denialMessage config)\<rparr>, s)
      else
        (let purged = filter (\<lambda>t. now - t < windowMs config) (timestamps log) in
         if int (length purged) \<ge> maxRequests config then
           (let until = js_plus (js_first purged) (windowMs config) in
            (\<lparr>allowed = False, remaining = 0, resetAt = until,
              resultMessage = Some (denialMessage config)\<rparr>,
             store_set s identifier (log\<lparr>timestamps := purged, blocked := True, blockUntil := until\<rparr>)))
         else
           (let pushed = purged @ [now] in
            (\<lparr>allowed = True, remaining = maxRequests config - int (length pushed),
              resetAt = js_plus (js_first pushed) (windowMs config), resultMessage = None\<rparr>,
             store_set s identifier (log\<lparr>timestamps := pushed, blocked := False\<rparr>)))))"

text \<open>
  A sequence of calls for one identifier, each with its policy and its clock reading; the
  results are listed in call order.
\<close>

fun checkRateLimitCalls :: "string \<Rightarrow> (RateLimitConfig \<times> int) list \<Rightarrow> store \<Rightarrow> RateLimitResult list \<times> store" where
  "checkRateLimitCalls identifier [] s = ([], s)"
| "checkRateLimitCalls identifier ((config, now) # calls) s =
     (let (r, s') = checkRateLimit identifier config now s;
          (rs, s'') = checkRateLimitCalls identifier calls s'
      in (r # rs, s''))"

subsection \<open>\<open>checkMultipleRateLimits\<close>\<close>

text \<open>
  Every \<open>checkRateLimit\<close> of the loop reads the clock itself, and the final return reads it
  once more: \<open>clock k\<close> is the \<open>k\<close>-th reading of \<open>Date.now()\<close> made during the call.
\<close>

fun checkMultipleLoop :: "string \<Rightarrow> RateLimitConfig list \<Rightarrow> (nat \<Rightarrow> int) \<Rightarrow> nat \<Rightarrow> store \<Rightarrow> RateLimitResult \<times> store" where
  "checkMultipleLoop identifier [] clock k s =
     (\<lparr>allowed = True, remaining = - 1, resetAt = Num (clock k), resultMessage = None\<rparr>, s)"
| "checkMultipleLoop identifier (config # configs) clock k s =
     (let (result, s') = checkRateLimit identifier config (clock k) s
      in if \<not> allowed result then (result, s')
         else checkMultipleLoop identifier configs clock (Suc k) s')"

definition checkMultipleRateLimits :: "string \<Rightarrow> RateLimitConfig list \<Rightarrow> (nat \<Rightarrow> int) \<Rightarrow> store \<Rightarrow> RateLimitResult \<times> store" where
  "checkMultipleRateLimits identifier configs clock s = checkMultipleLoop identifier configs clock 0 s"

text \<open>The policies of a list paired with the clock readings \<open>k\<close>, \<open>k + 1\<close>, ...\<close>

fun withClock :: "RateLimitConfig list \<Rightarrow> (nat \<Rightarrow> int) \<Rightarrow> nat \<Rightarrow> (RateLimitConfig \<times> int) list" where
  "withClock [] clock k = []"
| "withClock (config # configs) clock k = (config, clock k) # withClock configs clock (Suc k)"

subsection \<open>Keys, reset, status, clearing\<close>

definition createRateLimitKey :: "string \<Rightarrow> string \<Rightarrow> string" where
  "createRateLimitKey identifier endpoint = identifier @ '':'' @ endpoint"

definition resetRateLimit :: "string \<Rightarrow> store \<Rightarrow> store" where
  "resetRateLimit identifier s =
     store_set s identifier \<lparr>timestamps = [], blocked = False, blockUntil = Undefined\<rparr>"

text \<open>
  \<open>getRateLimitStatus\<close> filters into a new array \<open>recentRequests\<close> and never writes; the
  store it leaves behind is returned with the status. \<open>recentRequests[0] || now\<close> takes the
  clock reading when the array is empty or its first entry is \<open>0\<close>.
\<close>

definition getRateLimitStatus :: "string \<Rightarrow> RateLimitConfig \<Rightarrow> int \<Rightarrow> store \<Rightarrow> RateLimitStatus \<times> store" where
  "getRateLimitStatus identifier config now s =
     (case store_get s identifier of
        None \<Rightarrow>
          (\<lparr>current = 0, maxStatus = maxRequests config, remainingStatus = maxRequests config,
            resetAtStatus = now + windowMs config\<rparr>, s)
      | Some log \<Rightarrow>
          (let recentRequests = filter (\<lambda>t. now - t < windowMs config) (timestamps log);
               remaining = max 0 (maxRequests config - int (length recentRequests));
               oldestTimestamp =
                 (if js_truthy (js_first recentRequests)
                  then (case recentRequests of [] \<Rightarrow> now | t # _ \<Rightarrow> t) else now);
               resetAt = oldestTimestamp + windowMs config
           in (\<lparr>current = int (length recentRequests), maxStatus = maxRequests config,
                remainingStatus = remaining, resetAtStatus = resetAt\<rparr>, s)))"

definition clearAllRateLimits :: "store \<Rightarrow> store" where
  "clearAllRateLimits s = store_clear s"

definition rateLimitMiddleware :: "RateLimitConfig \<Rightarrow> string \<Rightarrow> int \<Rightarrow> store \<Rightarrow> RateLimitResult \<times> store" where
  "rateLimitMiddleware config identifier now s = checkRateLimit identifier config now s"

subsection \<open>The cleanup sweep\<close>

text \<open>
  \<open>RateLimitStore.cleanup\<close> walks the entries of the map and deletes from the map it
  walks; a JavaScript \<open>Map\<close> iterator visits every entry that was present and is not yet
  deleted, so the walk is over the entries at the start and the deletions go to the store.
  The clock reading of the sweep is a parameter; the interval timer that starts a sweep
  every five minutes and the line the sweep logs are not part of the model.
\<close>

fun cleanupEntries :: "int \<Rightarrow> (string \<times> RequestLog) list \<Rightarrow> store \<Rightarrow> store" where
  "cleanupEntries now [] s = s"
| "cleanupEntries now ((key, log) # entries) s =
     (let oneHourAgo = now - 60 * 60 * 1000;
          hasRecentRequests = list_ex (\<lambda>t. t > oneHourAgo) (timestamps log)
      in if \<not> hasRecentRequests \<and> \<not> isBlocked log now
         then cleanupEntries now entries (store_delete s key)
         else cleanupEntries now entries s)"

definition cleanup :: "int \<Rightarrow> store \<Rightarrow> store" where
  "cleanup now s = cleanupEntries now s s"

subsection \<open>\<open>getRateLimitStats\<close>\<close>

text \<open>
  The loop of \<open>getRateLimitStats\<close> runs over
  \<open>store.get.length ? Array.from(store.get.toString()) : []\<close>. \<open>store.get\<close> is the method
  \<open>get(key)\<close>, so \<open>store.get.length\<close> is its number of declared parameters, \<open>1\<close>, and
  \<open>store.get.toString()\<close> is the source text of the method, which depends on how the file
  was compiled and is a parameter here. \<open>Array.from\<close> of a string lists its characters as
  one-character strings. The loop variable can therefore hold a string; the body tests it for
  being a log object.
\<close>

datatype jsvalue = JString string | JLog RequestLog

definition store_get_length :: nat where
  "store_get_length = 1"

definition array_from_string :: "string \<Rightarrow> jsvalue list" where
  "array_from_string text = map (\<lambda>c. JString [c]) text"

text \<open>\<open>log && typeof log === 'object' && 'blocked' in log\<close>\<close>

fun isLogObject :: "jsvalue \<Rightarrow> RequestLog option" where
  "isLogObject (JString str) = None"
| "isLogObject (JLog typedLog) = Some typedLog"

fun countBlocked :: "int \<Rightarrow> jsvalue list \<Rightarrow> nat \<Rightarrow> nat" where
  "countBlocked now [] count = count"
| "countBlocked now (log # logs) count =
     (case isLogObject log of
        None \<Rightarrow> countBlocked now logs count
      | Some typedLog \<Rightarrow>
          if isBlocked typedLog now
          then countBlocked now logs (count + 1)
          else countBlocked now logs count)"

definition getRateLimitStats :: "string \<Rightarrow> int \<Rightarrow> store \<Rightarrow> RateLimitStats" where
  "getRateLimitStats getSource now s =
     (let items = (if store_get_length \<noteq> 0 then array_from_string getSource else [])
      in \<lparr>totalKeys = store_size s, blockedCount = countBlocked now items 0\<rparr>)"

subsection \<open>Auxiliary definitions for the properties\<close>

text \<open>The log \<open>checkRateLimit\<close> works on: the stored one, or a new one for a first-seen identifier.\<close>

definition currentLog :: "store \<Rightarrow> string \<Rightarrow> RequestLog" where
  "currentLog s identifier = (case store_get s identifier of None \<Rightarrow> newLog | Some l \<Rightarrow> l)"

text \<open>The policy of the scenario in section 8 of the specification.\<close>

definition scenarioPolicy :: RateLimitConfig where
  "scenarioPolicy = \<lparr>maxRequests = 2, windowMs = 5000, message = None\<rparr>"

text \<open>
  What every log built by calls under one policy at non-decreasing clock readings
  satisfies, \<open>prev\<close> being the reading of the latest call: the timestamps are in call
  order, none is later than \<open>prev\<close> or has left the window at \<open>prev\<close>, and a latch set to
  a number was computed from the oldest retained timestamp.
\<close>

definition windowLog :: "RateLimitConfig \<Rightarrow> int \<Rightarrow> RequestLog \<Rightarrow> bool" where
  "windowLog config prev log \<longleftrightarrow>
     sorted (timestamps log)
     \<and> (\<forall>t\<in>set (timestamps log). t \<le> prev \<and> prev - t < windowMs config)
     \<and> (\<forall>b. blocked log \<and> blockUntil log = Num b \<longrightarrow>
            (\<exists>oldest rest. timestamps log = oldest # rest \<and> b = oldest + windowMs config))"

text \<open>
  What every log built by calls under one policy with \<open>maxRequests \<ge> 1\<close> satisfies: it
  holds at most \<open>maxRequests\<close> timestamps, and while it is latched it is not empty and
  \<open>blockUntil\<close> is its oldest timestamp plus the window.
\<close>

definition policyLog :: "RateLimitConfig \<Rightarrow> RequestLog \<Rightarrow> bool" where
  "policyLog config log \<longleftrightarrow>
     int (length (timestamps log)) \<le> maxRequests config
     \<and> (blocked log \<longrightarrow>
          (\<exists>oldest rest. timestamps log = oldest # rest
             \<and> blockUntil log = Num (oldest + windowMs config)))"

text \<open>Two policies for \<open>checkMultipleRateLimits\<close>, a lenient and a strict one.\<close>

definition lenientPolicy :: RateLimitConfig where
  "lenientPolicy = \<lparr>maxRequests = 3, windowMs = 1000, message = Some ''lenient''\<rparr>"

definition strictPolicy :: RateLimitConfig where
  "strictPolicy = \<lparr>maxRequests = 1, windowMs = 1000, message = Some ''strict''\<rparr>"

text \<open>The test under which the sweep deletes an entry, and a store to run the sweep on.\<close>

definition removable :: "int \<Rightarrow> RequestLog \<Rightarrow> bool" where
  "removable now log \<longleftrightarrow>
     \<not> list_ex (\<lambda>t. t > now - 60 * 60 * 1000) (timestamps log) \<and> \<not> isBlocked log now"

definition sweepStore :: store where
  "sweepStore =
     [(''idle'', \<lparr>timestamps = [1000], blocked = False, blockUntil = Undefined\<rparr>),
      (''latched'', \<lparr>timestamps = [1000], blocked = True, blockUntil = Num 9000000\<rparr>),
      (''expired'', \<lparr>timestamps = [1000], blocked = True, blockUntil = Num 61000\<rparr>),
      (''recent'', \<lparr>timestamps = [1000, 7000000], blocked = False, blockUntil = Undefined\<rparr>)]"

text \<open>A store to ask \<open>getRateLimitStatus\<close> about.\<close>

definition statusStore :: store where
  "statusStore = [(''203.0.113.7'', \<lparr>timestamps = [0, 100, 4000], blocked = False, blockUntil = Undefined\<rparr>)]"

section \<open>Properties\<close>

lemmas rateLimit_eval =
  checkRateLimit_def store_get_def store_set_def newLog_def isBlocked_def
  js_truthy_def js_gt_def js_plus_def js_first_def denialMessage_def Let_def

subsection \<open>The three branches of \<open>checkRateLimit\<close>\<close>

lemma store_get_set: "store_get (store_set s k v) k' = (if k' = k then Some v else store_get s k')"
  by (simp add: store_get_def store_set_def update_conv')

lemma currentLog_set: "currentLog (store_set s k v) k = v"
  by (simp add: currentLog_def store_get_set)

lemma newLog_not_blocked: "\<not> isBlocked newLog now"
  by (simp add: isBlocked_def newLog_def)

lemma isBlocked_iff:
  "isBlocked log now \<longleftrightarrow> blocked log \<and> (\<exists>b. blockUntil log = Num b \<and> b \<noteq> 0 \<and> now < b)"
  by (cases "blockUntil log") (simp_all add: isBlocked_def js_truthy_def js_gt_def)

lemma checkRateLimit_blocked:
  assumes "isBlocked (currentLog s identifier) now"
  shows "checkRateLimit identifier config now s =
           (\<lparr>allowed = False, remaining = 0, resetAt = blockUntil (currentLog s identifier),
             resultMessage = Some (denialMessage config)\<rparr>, s)"
  using assms by (simp add: checkRateLimit_def currentLog_def)

lemma checkRateLimit_latch:
  assumes "\<not> isBlocked (currentLog s identifier) now"
    and "purged = filter (\<lambda>t. now - t < windowMs config) (timestamps (currentLog s identifier))"
    and "maxRequests config \<le> int (length purged)"
  shows "checkRateLimit identifier config now s =
           (\<lparr>allowed = False, remaining = 0, resetAt = js_plus (js_first purged) (windowMs config),
             resultMessage = Some (denialMessage config)\<rparr>,
            store_set s identifier ((currentLog s identifier)
              \<lparr>timestamps := purged, blocked := True,
               blockUntil := js_plus (js_first purged) (windowMs config)\<rparr>))"
  using assms by (simp add: checkRateLimit_def currentLog_def Let_def)

lemma checkRateLimit_admit:
  assumes "\<not> isBlocked (currentLog s identifier) now"
    and "purged = filter (\<lambda>t. now - t < windowMs config) (timestamps (currentLog s identifier))"
    and "int (length purged) < maxRequests config"
  shows "checkRateLimit identifier config now s =
           (\<lparr>allowed = True, remaining = maxRequests config - int (length purged) - 1,
             resetAt = js_plus (js_first (purged @ [now])) (windowMs config),
             resultMessage = None\<rparr>,
            store_set s identifier ((currentLog s identifier)
              \<lparr>timestamps := purged @ [now], blocked := False\<rparr>))"
  using assms by (simp add: checkRateLimit_def currentLog_def Let_def)

subsection \<open>Counting admissions\<close>

text \<open>
  While no clock reading of the sequence lets a stored or a new timestamp age out, every
  admission makes the log one longer and nothing shortens it, and a call is admitted only
  below \<open>maxRequests\<close>.
\<close>

lemma allowed_count_bounded:
  assumes "\<forall>now\<in>set nows. \<forall>t\<in>set (timestamps (currentLog s identifier)) \<union> set nows.
             now - t < windowMs config"
  shows "int (length (filter allowed (fst (checkRateLimitCalls identifier (map (\<lambda>t. (config, t)) nows) s))))
           + int (length (timestamps (currentLog s identifier)))
         \<le> max (int (length (timestamps (currentLog s identifier)))) (maxRequests config)"
  using assms
proof (induction nows arbitrary: s)
  case Nil
  then show ?case by simp
next
  case (Cons now nows)
  let ?log = "currentLog s identifier"
  let ?L = "timestamps ?log"
  have keep: "filter (\<lambda>t. now - t < windowMs config) ?L = ?L"
    using Cons.prems by (auto simp: filter_id_conv)
  show ?case
  proof (cases "isBlocked ?log now")
    case True
    have step: "checkRateLimit identifier config now s =
        (\<lparr>allowed = False, remaining = 0, resetAt = blockUntil ?log,
          resultMessage = Some (denialMessage config)\<rparr>, s)"
      by (rule checkRateLimit_blocked [OF True])
    have "\<forall>now\<in>set nows. \<forall>t\<in>set ?L \<union> set nows. now - t < windowMs config"
      using Cons.prems by auto
    from Cons.IH [OF this] show ?thesis
      by (simp add: step case_prod_beta)
  next
    case False
    show ?thesis
    proof (cases "maxRequests config \<le> int (length ?L)")
      case True
      let ?s' = "store_set s identifier (?log\<lparr>timestamps := ?L, blocked := True,
               blockUntil := js_plus (js_first ?L) (windowMs config)\<rparr>)"
      have step: "checkRateLimit identifier config now s =
           (\<lparr>allowed = False, remaining = 0, resetAt = js_plus (js_first ?L) (windowMs config),
             resultMessage = Some (denialMessage config)\<rparr>, ?s')"
        using checkRateLimit_latch [OF False keep [symmetric]] True by simp
      have L': "timestamps (currentLog ?s' identifier) = ?L"
        by (simp add: currentLog_set)
      have "\<forall>now\<in>set nows. \<forall>t\<in>set (timestamps (currentLog ?s' identifier)) \<union> set nows.
               now - t < windowMs config"
        unfolding L' using Cons.prems by auto
      from Cons.IH [OF this] show ?thesis
        unfolding L' by (simp add: step case_prod_beta)
    next
      case room: False
      let ?s' = "store_set s identifier (?log\<lparr>timestamps := ?L @ [now], blocked := False\<rparr>)"
      have step: "checkRateLimit identifier config now s =
           (\<lparr>allowed = True, remaining = maxRequests config - int (length ?L) - 1,
             resetAt = js_plus (js_first (?L @ [now])) (windowMs config),
             resultMessage = None\<rparr>, ?s')"
        using checkRateLimit_admit [OF False keep [symmetric]] room by simp
      have L': "timestamps (currentLog ?s' identifier) = ?L @ [now]"
        by (simp add: currentLog_set)
      have "\<forall>now\<in>set nows. \<forall>t\<in>set (timestamps (currentLog ?s' identifier)) \<union> set nows.
               now - t < windowMs config"
        unfolding L' using Cons.prems by auto
      from Cons.IH [OF this] room show ?thesis
        unfolding L' by (simp add: step case_prod_beta)
    qed
  qed
qed

text \<open>
  \<^bold>\<open>C1\<close> (quota invariant). For a policy with \<open>maxRequests \<ge> 1\<close> and \<open>windowMs \<ge> 1\<close> and
  an identifier whose log is empty, take any sequence of \<open>checkRateLimit\<close> calls under that
  policy whose first call is at \<open>t0\<close> and whose later calls are at readings \<open>t\<close> with
  \<open>t0 \<le> t < t0 + windowMs\<close> (all within one window of the first call, so no timestamp
  ages out). Then at most \<open>maxRequests\<close> of the results have \<open>allowed = true\<close>.
\<close>

theorem quota_invariant:
  assumes "1 \<le> maxRequests config" and "1 \<le> windowMs config"
    and "\<forall>log. store_get s identifier = Some log \<longrightarrow> timestamps log = []"
    and "\<forall>t\<in>set nows. t0 \<le> t \<and> t - t0 < windowMs config"
  shows "int (length (filter allowed
           (fst (checkRateLimitCalls identifier (map (\<lambda>t. (config, t)) (t0 # nows)) s))))
         \<le> maxRequests config"
proof -
  have empty: "timestamps (currentLog s identifier) = []"
    using assms(3) by (cases "store_get s identifier") (simp_all add: currentLog_def newLog_def)
  have "\<forall>now\<in>set (t0 # nows). \<forall>t\<in>set (timestamps (currentLog s identifier)) \<union> set (t0 # nows).
          now - t < windowMs config"
  proof (intro ballI)
    fix now t
    assume "now \<in> set (t0 # nows)"
      and "t \<in> set (timestamps (currentLog s identifier)) \<union> set (t0 # nows)"
    then have "t0 \<le> t" and "now - t0 < windowMs config"
      using assms(2,4) by (auto simp: empty)
    then show "now - t < windowMs config" by linarith
  qed
  from allowed_count_bounded [OF this] show ?thesis
    unfolding empty using assms(1) by simp
qed

text \<open>
  The policy of the scenario, calls at 0, 100, 200 and 4999: two are admitted.
\<close>

theorem quota_invariant_witness:
  "1 \<le> maxRequests \<lparr>maxRequests = 2, windowMs = 5000, message = None\<rparr>
   \<and> 1 \<le> windowMs \<lparr>maxRequests = 2, windowMs = 5000, message = None\<rparr>
   \<and> store_get [] ''203.0.113.7'' = None
   \<and> list_all (\<lambda>t. (0::int) \<le> t \<and> t - 0 < 5000) [100, 200, 4999]
   \<and> int (length (filter allowed
         (fst (checkRateLimitCalls ''203.0.113.7''
            (map (\<lambda>t. (\<lparr>maxRequests = 2, windowMs = 5000, message = None\<rparr>, t)) (0 # [100, 200, 4999]))
            [])))) \<le> 2"
  using quota_invariant [of "\<lparr>maxRequests = 2, windowMs = 5000, message = None\<rparr>" "[]"
      "''203.0.113.7''" "[100, 200, 4999]" 0]
  by (simp add: store_get_def)

subsection \<open>The concrete scenario\<close>

text \<open>
  \<^bold>\<open>C2\<close> as the specification states it: with \<open>{maxRequests: 2, windowMs: 5000}\<close> and a
  fresh identifier, the calls at 0, 100, 200 and 5001 would give Allowed with 1 remaining,
  Allowed with 0 remaining, Denied with \<open>resetAt = 5000\<close>, and Allowed with 1 remaining.
  The code does not: at 5001 only the timestamp 0 has aged out, the timestamp 100 is still
  inside the window, and the admitted request is the second of the window.
\<close>

theorem concrete_scenario_counterexample:
  "\<not> (\<exists>r0 r1 r2 r3 s.
        checkRateLimitCalls ''203.0.113.7''
          [(scenarioPolicy, 0), (scenarioPolicy, 100), (scenarioPolicy, 200), (scenarioPolicy, 5001)] []
          = ([r0, r1, r2, r3], s)
        \<and> allowed r0 \<and> remaining r0 = 1
        \<and> allowed r1 \<and> remaining r1 = 0
        \<and> \<not> allowed r2 \<and> resetAt r2 = Num 5000
        \<and> allowed r3 \<and> remaining r3 = 1)"
  by (simp add: rateLimit_eval scenarioPolicy_def)

text \<open>
  \<^bold>\<open>C2\<close>, amended: the four calls return Allowed with 1 remaining, Allowed with 0 remaining,
  Denied with \<open>resetAt = 5000\<close>, and Allowed with 0 remaining (and \<open>resetAt = 5100\<close>); the
  log then holds the timestamps 100 and 5001.
\<close>

theorem concrete_scenario:
  "checkRateLimitCalls ''203.0.113.7''
     [(scenarioPolicy, 0), (scenarioPolicy, 100), (scenarioPolicy, 200), (scenarioPolicy, 5001)] []
   = ([\<lparr>allowed = True, remaining = 1, resetAt = Num 5000, resultMessage = None\<rparr>,
       \<lparr>allowed = True, remaining = 0, resetAt = Num 5000, resultMessage = None\<rparr>,
       \<lparr>allowed = False, remaining = 0, resetAt = Num 5000,
         resultMessage = Some ''Rate limit exceeded. Please try again later.''\<rparr>,
       \<lparr>allowed = True, remaining = 0, resetAt = Num 5100, resultMessage = None\<rparr>],
      [(''203.0.113.7'', \<lparr>timestamps = [100, 5001], blocked = False, blockUntil = Num 5000\<rparr>)])"
  by (simp add: rateLimit_eval scenarioPolicy_def)

subsection \<open>The blocking latch\<close>

lemma currentLog_Some: "store_get s identifier = Some log \<Longrightarrow> currentLog s identifier = log"
  by (simp add: currentLog_def)

lemma blocked_is_stored:
  assumes "blocked (currentLog s identifier)"
  shows "store_get s identifier = Some (currentLog s identifier)"
  using assms by (cases "store_get s identifier") (simp_all add: currentLog_def newLog_def)

text \<open>
  Every denial leaves the identifier latched: its stored log has \<open>blocked = true\<close> and a
  \<open>blockUntil\<close> equal to the \<open>resetAt\<close> of the denial.
\<close>

lemma denied_latches:
  assumes "checkRateLimit identifier config now s = (r, s')" and "\<not> allowed r"
  shows "\<exists>log. store_get s' identifier = Some log \<and> blocked log \<and> blockUntil log = resetAt r"
proof (cases "isBlocked (currentLog s identifier) now")
  case True
  then have "blocked (currentLog s identifier)" by (simp add: isBlocked_def)
  from blocked_is_stored [OF this] this assms(1) show ?thesis
    by (auto simp: checkRateLimit_blocked [OF True])
next
  case False
  let ?purged = "filter (\<lambda>t. now - t < windowMs config) (timestamps (currentLog s identifier))"
  show ?thesis
  proof (cases "maxRequests config \<le> int (length ?purged)")
    case True
    from checkRateLimit_latch [OF False refl True] assms(1) show ?thesis
      by (auto simp: store_get_set)
  next
    case False
    with checkRateLimit_admit [OF \<open>\<not> isBlocked (currentLog s identifier) now\<close> refl, of config] assms
    show ?thesis by auto
  qed
qed

lemma latched_call:
  assumes "store_get s identifier = Some log" and "blocked log" and "blockUntil log = Num b"
    and "0 \<le> now" and "now < b"
  shows "checkRateLimit identifier config now s =
           (\<lparr>allowed = False, remaining = 0, resetAt = Num b,
             resultMessage = Some (denialMessage config)\<rparr>, s)"
proof -
  have "isBlocked (currentLog s identifier) now"
    using assms by (simp add: currentLog_Some isBlocked_iff)
  from checkRateLimit_blocked [OF this] show ?thesis
    using assms by (simp add: currentLog_Some)
qed

text \<open>
  \<^bold>\<open>C3\<close> (blocking latch). Let a \<open>checkRateLimit\<close> call deny a request with \<open>resetAt = b\<close>, which
  by \<open>denied_latches\<close> is the \<open>blockUntil\<close> it leaves in the log. Then every later call for
  that identifier at a clock reading strictly before \<open>b\<close>, under whatever policy, returns
  Denied with \<open>remaining = 0\<close> and \<open>resetAt = b\<close>, and the store (so the timestamps of the log)
  stays as the denial left it. Clock readings are values of \<open>Date.now()\<close>, milliseconds since
  the epoch, and not negative.
\<close>

theorem blocking_latch:
  assumes "checkRateLimit identifier config0 t0 s0 = (r0, s)"
    and "\<not> allowed r0" and "resetAt r0 = Num b"
    and "\<forall>(config, now)\<in>set calls. 0 \<le> now \<and> now < b"
  shows "checkRateLimitCalls identifier calls s =
           (map (\<lambda>(config, now). \<lparr>allowed = False, remaining = 0, resetAt = Num b,
                                   resultMessage = Some (denialMessage config)\<rparr>) calls, s)"
proof -
  from denied_latches [OF assms(1,2)] assms(3) obtain log
    where log: "store_get s identifier = Some log" "blocked log" "blockUntil log = Num b"
    by auto
  from assms(4) show ?thesis
  proof (induction calls)
    case Nil
    then show ?case by simp
  next
    case (Cons call calls)
    obtain config now where call: "call = (config, now)" by (cases call)
    with Cons.prems have "0 \<le> now" "now < b" by auto
    from latched_call [OF log this] Cons show ?case
      by (simp add: call)
  qed
qed

text \<open>
  The third call of the scenario latches the identifier until 5000; a call at 201 under
  the same policy and a call at 4999 under another one are answered from the latch.
\<close>

theorem blocking_latch_witness:
  "checkRateLimit ''203.0.113.7'' scenarioPolicy 200
      [(''203.0.113.7'', \<lparr>timestamps = [0, 100], blocked = False, blockUntil = Undefined\<rparr>)]
     = (\<lparr>allowed = False, remaining = 0, resetAt = Num 5000,
         resultMessage = Some ''Rate limit exceeded. Please try again later.''\<rparr>,
        [(''203.0.113.7'', \<lparr>timestamps = [0, 100], blocked = True, blockUntil = Num 5000\<rparr>)])
   \<and> list_all (\<lambda>(config, now). (0::int) \<le> now \<and> now < 5000)
         [(scenarioPolicy, 201), (\<lparr>maxRequests = 60, windowMs = 1, message = Some ''slow down''\<rparr>, 4999)]
   \<and> checkRateLimitCalls ''203.0.113.7''
        [(scenarioPolicy, 201), (\<lparr>maxRequests = 60, windowMs = 1, message = Some ''slow down''\<rparr>, 4999)]
        [(''203.0.113.7'', \<lparr>timestamps = [0, 100], blocked = True, blockUntil = Num 5000\<rparr>)]
      = ([\<lparr>allowed = False, remaining = 0, resetAt = Num 5000,
           resultMessage = Some ''Rate limit exceeded. Please try again later.''\<rparr>,
          \<lparr>allowed = False, remaining = 0, resetAt = Num 5000,
           resultMessage = Some ''slow down''\<rparr>],
         [(''203.0.113.7'', \<lparr>timestamps = [0, 100], blocked = True, blockUntil = Num 5000\<rparr>)])"
proof -
  have first: "checkRateLimit ''203.0.113.7'' scenarioPolicy 200
      [(''203.0.113.7'', \<lparr>timestamps = [0, 100], blocked = False, blockUntil = Undefined\<rparr>)]
     = (\<lparr>allowed = False, remaining = 0, resetAt = Num 5000,
         resultMessage = Some ''Rate limit exceeded. Please try again later.''\<rparr>,
        [(''203.0.113.7'', \<lparr>timestamps = [0, 100], blocked = True, blockUntil = Num 5000\<rparr>)])"
    by (simp add: rateLimit_eval scenarioPolicy_def)
  have times: "\<forall>(config, now)\<in>set [(scenarioPolicy, 201), (\<lparr>maxRequests = 60, windowMs = 1, message = Some ''slow down''\<rparr>, 4999)].
         (0::int) \<le> now \<and> now < 5000"
    by simp
  from blocking_latch [OF first _ _ times] first times show ?thesis
    by (simp add: denialMessage_def scenarioPolicy_def)
qed

subsection \<open>Retained timestamps stay inside the window\<close>

text \<open>After a call the identifier has a stored log, also when the call was answered from the latch.\<close>

lemma stored_after_call:
  "\<exists>log. store_get (snd (checkRateLimit identifier config now s)) identifier = Some log"
proof (cases "isBlocked (currentLog s identifier) now")
  case True
  then have "blocked (currentLog s identifier)" by (simp add: isBlocked_def)
  from blocked_is_stored [OF this] show ?thesis
    by (simp add: checkRateLimit_blocked [OF True])
next
  case False
  let ?purged = "filter (\<lambda>t. now - t < windowMs config) (timestamps (currentLog s identifier))"
  show ?thesis
  proof (cases "maxRequests config \<le> int (length ?purged)")
    case True
    from checkRateLimit_latch [OF False refl True] show ?thesis
      by (simp add: store_get_set)
  next
    case room: False
    then have "int (length ?purged) < maxRequests config" by simp
    from checkRateLimit_admit [OF False refl this] show ?thesis
      by (simp add: store_get_set)
  qed
qed

lemma stored_after_calls:
  "calls \<noteq> [] \<Longrightarrow> \<exists>log. store_get (snd (checkRateLimitCalls identifier calls s)) identifier = Some log"
proof (induction calls arbitrary: s)
  case Nil
  then show ?case by simp
next
  case (Cons call calls)
  obtain config now where call: "call = (config, now)" by (cases call)
  show ?case
  proof (cases "calls = []")
    case True
    have "\<exists>log. store_get (snd (checkRateLimit identifier config now s)) identifier = Some log"
      by (rule stored_after_call)
    with True show ?thesis
      by (simp add: call case_prod_beta)
  next
    case False
    from Cons.IH [OF this] show ?thesis
      by (simp add: call case_prod_beta)
  qed
qed

lemma windowLog_latch:
  assumes "sorted purged" and "\<forall>t\<in>set purged. t \<le> now \<and> now - t < windowMs config"
  shows "windowLog config now (log\<lparr>timestamps := purged, blocked := True,
           blockUntil := js_plus (js_first purged) (windowMs config)\<rparr>)"
  using assms by (cases purged) (simp_all add: windowLog_def js_plus_def js_first_def)

lemma windowLog_admit:
  assumes "sorted purged" and "\<forall>t\<in>set purged. t \<le> now \<and> now - t < windowMs config"
    and "1 \<le> windowMs config"
  shows "windowLog config now (log\<lparr>timestamps := purged @ [now], blocked := False\<rparr>)"
  using assms by (simp add: windowLog_def sorted_append)

text \<open>
  One call keeps \<open>windowLog\<close>. The latch branch purges nothing, but it is taken only
  before \<open>blockUntil\<close>, which is the oldest timestamp plus the window; the timestamps are
  in order, so none of them has left the window either.
\<close>

lemma windowLog_call:
  assumes w: "1 \<le> windowMs config"
    and inv: "windowLog config prev (currentLog s identifier)"
    and mono: "prev \<le> now"
  shows "windowLog config now (currentLog (snd (checkRateLimit identifier config now s)) identifier)"
proof (cases "isBlocked (currentLog s identifier) now")
  case True
  let ?log = "currentLog s identifier"
  from True obtain b where b: "blocked ?log" "blockUntil ?log = Num b" "now < b"
    by (auto simp: isBlocked_iff)
  with inv obtain oldest rest where L: "timestamps ?log = oldest # rest" "b = oldest + windowMs config"
    by (auto simp: windowLog_def)
  have srt: "sorted (timestamps ?log)" using inv by (simp add: windowLog_def)
  have "\<forall>t\<in>set (timestamps ?log). t \<le> now \<and> now - t < windowMs config"
  proof
    fix t assume t: "t \<in> set (timestamps ?log)"
    then have "oldest \<le> t" using srt L(1) by auto
    moreover have "t \<le> prev" using inv t by (simp add: windowLog_def)
    ultimately show "t \<le> now \<and> now - t < windowMs config"
      using b(3) L(2) mono by linarith
  qed
  then have "windowLog config now ?log"
    using inv by (simp add: windowLog_def)
  then show ?thesis
    by (simp add: checkRateLimit_blocked [OF True])
next
  case False
  let ?log = "currentLog s identifier"
  let ?purged = "filter (\<lambda>t. now - t < windowMs config) (timestamps ?log)"
  have srt: "sorted ?purged" using inv by (simp add: windowLog_def sorted_wrt_filter)
  have "\<forall>t\<in>set (timestamps ?log). t \<le> prev" using inv by (simp add: windowLog_def)
  then have le: "\<forall>t\<in>set ?purged. t \<le> now" using mono by fastforce
  have win: "\<forall>t\<in>set ?purged. t \<le> now \<and> now - t < windowMs config"
    using le by simp
  show ?thesis
  proof (cases "maxRequests config \<le> int (length ?purged)")
    case True
    have "windowLog config now (?log\<lparr>timestamps := ?purged, blocked := True,
               blockUntil := js_plus (js_first ?purged) (windowMs config)\<rparr>)"
      by (rule windowLog_latch [OF srt win])
    then show ?thesis
      by (simp add: checkRateLimit_latch [OF False refl True] currentLog_set)
  next
    case room: False
    then have lt: "int (length ?purged) < maxRequests config" by simp
    have "windowLog config now (?log\<lparr>timestamps := ?purged @ [now], blocked := False\<rparr>)"
      by (rule windowLog_admit [OF srt win w])
    then show ?thesis
      by (simp add: checkRateLimit_admit [OF False refl lt] currentLog_set)
  qed
qed

lemma windowLog_calls:
  assumes "1 \<le> windowMs config"
    and "windowLog config prev (currentLog s identifier)"
    and "sorted (prev # nows)"
  shows "windowLog config (last (prev # nows))
           (currentLog (snd (checkRateLimitCalls identifier (map (\<lambda>t. (config, t)) nows) s)) identifier)"
  using assms(2,3)
proof (induction nows arbitrary: s prev)
  case Nil
  then show ?case by simp
next
  case (Cons now nows)
  have "windowLog config now (currentLog (snd (checkRateLimit identifier config now s)) identifier)"
    using windowLog_call [OF assms(1) Cons.prems(1)] Cons.prems(2) by simp
  moreover have "sorted (now # nows)" using Cons.prems(2) by simp
  ultimately show ?case
    using Cons.IH [of now "snd (checkRateLimit identifier config now s)"]
    by (simp add: case_prod_beta)
qed

text \<open>
  \<^bold>\<open>C7\<close> as stated fails: its provisos are one policy for all calls,
  \<open>maxRequests \<ge> 1\<close> and non-decreasing clock readings, and they admit a window of 0
  milliseconds. Under \<open>{maxRequests: 1, windowMs: 0}\<close> the first call for a first-seen
  identifier, at 1000, is admitted and stores the timestamp 1000, for which
  \<open>now - t = 0\<close> is not below \<open>windowMs = 0\<close>.
\<close>

theorem retained_within_window_counterexample:
  "1 \<le> maxRequests \<lparr>maxRequests = 1, windowMs = 0, message = None\<rparr>
   \<and> store_get [] ''203.0.113.7'' = None
   \<and> sorted ([] @ [1000::int])
   \<and> snd (checkRateLimitCalls ''203.0.113.7''
           (map (\<lambda>t. (\<lparr>maxRequests = 1, windowMs = 0, message = None\<rparr>, t)) ([] @ [1000])) [])
       = [(''203.0.113.7'', \<lparr>timestamps = [1000], blocked = False, blockUntil = Undefined\<rparr>)]
   \<and> \<not> (\<exists>log. store_get (snd (checkRateLimitCalls ''203.0.113.7''
                 (map (\<lambda>t. (\<lparr>maxRequests = 1, windowMs = 0, message = None\<rparr>, t)) ([] @ [1000])) []))
               ''203.0.113.7'' = Some log
             \<and> (\<forall>t\<in>set (timestamps log).
                   1000 - t < windowMs \<lparr>maxRequests = 1, windowMs = 0, message = None\<rparr>))"
  by (simp add: rateLimit_eval)

text \<open>
  \<^bold>\<open>C7\<close>, amended (retained timestamps): with \<open>windowMs \<ge> 1\<close> added to the provisos.
  Take a policy with \<open>windowMs \<ge> 1\<close>, an identifier with an empty, unblocked log (or
  none), and calls under that one policy at non-decreasing clock readings. After each call,
  at reading \<open>now\<close>, the identifier has a stored log and every timestamp \<open>t\<close> in it
  satisfies \<open>now - t < windowMs\<close>, whichever branch answered the call, the blocked branch
  included. The timestamp a call pushes is \<open>now\<close> itself, for which the bound reads
  \<open>0 < windowMs\<close>. The proviso \<open>maxRequests \<ge> 1\<close> is not used: the statement holds for
  every \<open>maxRequests\<close>, so in particular under it.
\<close>

theorem retained_within_window:
  assumes "1 \<le> windowMs config"
    and "\<forall>log. store_get s identifier = Some log \<longrightarrow> timestamps log = [] \<and> \<not> blocked log"
    and "sorted (nows @ [now])"
  shows "\<exists>log. store_get (snd (checkRateLimitCalls identifier (map (\<lambda>t. (config, t)) (nows @ [now])) s))
                  identifier = Some log
              \<and> (\<forall>t\<in>set (timestamps log). now - t < windowMs config)"
proof -
  let ?s' = "snd (checkRateLimitCalls identifier (map (\<lambda>t. (config, t)) (nows @ [now])) s)"
  let ?first = "hd (nows @ [now])"
  have start: "windowLog config ?first (currentLog s identifier)"
    using assms(2) by (cases "store_get s identifier") (simp_all add: currentLog_def newLog_def windowLog_def)
  have "sorted (?first # (nows @ [now]))" using assms(3) by (cases nows) simp_all
  from windowLog_calls [OF assms(1) start this]
  have inv: "windowLog config now (currentLog ?s' identifier)" by simp
  have "map (\<lambda>t. (config, t)) (nows @ [now]) \<noteq> []" by simp
  from stored_after_calls [OF this]
  obtain log where log: "store_get ?s' identifier = Some log" by blast
  have "currentLog ?s' identifier = log" by (rule currentLog_Some [OF log])
  with inv have "\<forall>t\<in>set (timestamps log). now - t < windowMs config"
    by (simp add: windowLog_def)
  with log show ?thesis by blast
qed

text \<open>
  The scenario policy with calls at 0, 100, 200 and 300: the call at 200 latches, the call
  at 300 is answered from the latch and leaves the timestamps 0 and 100, both inside the
  window at 300.
\<close>

theorem retained_within_window_witness:
  "1 \<le> windowMs scenarioPolicy
   \<and> store_get [] ''203.0.113.7'' = None
   \<and> sorted ([0, 100, 200] @ [300::int])
   \<and> (\<exists>log. store_get (snd (checkRateLimitCalls ''203.0.113.7''
                   (map (\<lambda>t. (scenarioPolicy, t)) ([0, 100, 200] @ [300])) [])) ''203.0.113.7'' = Some log
          \<and> (\<forall>t\<in>set (timestamps log). 300 - t < windowMs scenarioPolicy))"
  using retained_within_window [of scenarioPolicy "[]" "''203.0.113.7''" "[0, 100, 200]" 300]
  by (simp add: scenarioPolicy_def store_get_def)

subsection \<open>Recovery after the latch\<close>

text \<open>
  Calls under one policy keep \<open>policyLog\<close>, from a new log on: a latched log reached
  that way has \<open>blockUntil\<close> equal to its oldest timestamp plus the window, and holds no
  more than \<open>maxRequests\<close> timestamps.
\<close>

lemma policyLog_newLog: "0 \<le> maxRequests config \<Longrightarrow> policyLog config newLog"
  by (simp add: policyLog_def newLog_def)

lemma policyLog_latch:
  assumes "1 \<le> maxRequests config" and "maxRequests config \<le> int (length purged)"
    and "length purged \<le> length (timestamps log)" and "policyLog config log"
  shows "policyLog config (log\<lparr>timestamps := purged, blocked := True,
           blockUntil := js_plus (js_first purged) (windowMs config)\<rparr>)"
  using assms by (cases purged) (simp_all add: policyLog_def js_plus_def js_first_def)

lemma policyLog_call:
  assumes m: "1 \<le> maxRequests config"
    and inv: "policyLog config (currentLog s identifier)"
  shows "policyLog config (currentLog (snd (checkRateLimit identifier config now s)) identifier)"
proof (cases "isBlocked (currentLog s identifier) now")
  case True
  with inv show ?thesis
    by (simp add: checkRateLimit_blocked [OF True])
next
  case False
  let ?log = "currentLog s identifier"
  let ?purged = "filter (\<lambda>t. now - t < windowMs config) (timestamps ?log)"
  show ?thesis
  proof (cases "maxRequests config \<le> int (length ?purged)")
    case True
    have "length ?purged \<le> length (timestamps ?log)" by (rule length_filter_le)
    from policyLog_latch [OF m True this inv] show ?thesis
      by (simp add: checkRateLimit_latch [OF False refl True] currentLog_set)
  next
    case room: False
    then have lt: "int (length ?purged) < maxRequests config" by simp
    then have "policyLog config (?log\<lparr>timestamps := ?purged @ [now], blocked := False\<rparr>)"
      by (simp add: policyLog_def)
    then show ?thesis
      by (simp add: checkRateLimit_admit [OF False refl lt] currentLog_set)
  qed
qed

lemma policyLog_calls:
  assumes "1 \<le> maxRequests config"
    and "policyLog config (currentLog s identifier)"
  shows "policyLog config
           (currentLog (snd (checkRateLimitCalls identifier (map (\<lambda>t. (config, t)) nows) s)) identifier)"
  using assms(2)
proof (induction nows arbitrary: s)
  case Nil
  then show ?case by simp
next
  case (Cons now nows)
  from Cons.IH [OF policyLog_call [OF assms(1) Cons.prems]] show ?case
    by (simp add: case_prod_beta)
qed



subsection \<open>\<open>checkMultipleRateLimits\<close> stops at the first denial\<close>

lemma denied_remaining:
  "\<not> allowed (fst (checkRateLimit identifier config now s)) \<Longrightarrow>
     remaining (fst (checkRateLimit identifier config now s)) = 0"
  by (simp add: checkRateLimit_def Let_def split: if_splits)

text \<open>
  The loop against the plain sequence of \<open>checkRateLimit\<close> calls, one per policy in list
  order, each at its own clock reading.
\<close>

lemma checkMultipleLoop_all_allowed:
  assumes "\<forall>r\<in>set (fst (checkRateLimitCalls identifier (withClock configs clock k) s)). allowed r"
  shows "checkMultipleLoop identifier configs clock k s =
           (\<lparr>allowed = True, remaining = - 1, resetAt = Num (clock (k + length configs)),
             resultMessage = None\<rparr>,
            snd (checkRateLimitCalls identifier (withClock configs clock k) s))"
  using assms
proof (induction configs arbitrary: k s)
  case Nil
  then show ?case by simp
next
  case (Cons config configs)
  let ?step = "checkRateLimit identifier config (clock k) s"
  from Cons.prems have ok: "allowed (fst ?step)"
    and rest: "\<forall>r\<in>set (fst (checkRateLimitCalls identifier (withClock configs clock (Suc k)) (snd ?step))). allowed r"
    by (simp_all add: case_prod_beta)
  from Cons.IH [OF rest] ok show ?case
    by (simp add: case_prod_beta)
qed

lemma checkMultipleLoop_first_denied:
  assumes "\<forall>r\<in>set (fst (checkRateLimitCalls identifier (withClock before clock k) s)). allowed r"
    and "\<not> allowed (fst (checkRateLimit identifier config (clock (k + length before))
             (snd (checkRateLimitCalls identifier (withClock before clock k) s))))"
  shows "checkMultipleLoop identifier (before @ config # later) clock k s =
           checkRateLimit identifier config (clock (k + length before))
             (snd (checkRateLimitCalls identifier (withClock before clock k) s))"
  using assms
proof (induction before arbitrary: k s)
  case Nil
  then show ?case by (simp add: case_prod_beta)
next
  case (Cons first before)
  let ?step = "checkRateLimit identifier first (clock k) s"
  from Cons.prems(1) have ok: "allowed (fst ?step)"
    and rest: "\<forall>r\<in>set (fst (checkRateLimitCalls identifier (withClock before clock (Suc k)) (snd ?step))). allowed r"
    by (simp_all add: case_prod_beta)
  from Cons.prems(2)
  have deny: "\<not> allowed (fst (checkRateLimit identifier config (clock (Suc k + length before))
             (snd (checkRateLimitCalls identifier (withClock before clock (Suc k)) (snd ?step)))))"
    by (simp add: case_prod_beta)
  from Cons.IH [OF rest deny] ok show ?case
    by (simp add: case_prod_beta)
qed

text \<open>
  \<^bold>\<open>C6\<close> (\<open>checkMultipleRateLimits\<close>). If evaluating every policy in list order allows,
  the call returns Allowed with \<open>remaining = -1\<close> and \<open>resetAt\<close> the clock reading taken at
  the return, and the store is the one those evaluations leave. If the policies \<open>before\<close>
  allow and the next one, \<open>config\<close>, denies, the call returns exactly what
  \<open>checkRateLimit\<close> returned for \<open>config\<close>, with \<open>remaining = 0\<close>, whatever policies
  \<open>later\<close> follow (they are not evaluated); the store is the one left by the evaluations of
  \<open>before\<close> and of \<open>config\<close>, so what the earlier policies recorded is not undone.
\<close>

theorem checkMultiple_short_circuit:
  "((\<forall>r\<in>set (fst (checkRateLimitCalls identifier (withClock configs clock 0) s)). allowed r) \<longrightarrow>
      checkMultipleRateLimits identifier configs clock s =
        (\<lparr>allowed = True, remaining = - 1, resetAt = Num (clock (length configs)),
          resultMessage = None\<rparr>,
         snd (checkRateLimitCalls identifier (withClock configs clock 0) s)))
   \<and> ((\<forall>r\<in>set (fst (checkRateLimitCalls identifier (withClock before clock 0) s)). allowed r)
        \<and> \<not> allowed (fst (checkRateLimit identifier config (clock (length before))
                 (snd (checkRateLimitCalls identifier (withClock before clock 0) s)))) \<longrightarrow>
      checkMultipleRateLimits identifier (before @ config # later) clock s =
        checkRateLimit identifier config (clock (length before))
          (snd (checkRateLimitCalls identifier (withClock before clock 0) s))
      \<and> remaining (fst (checkMultipleRateLimits identifier (before @ config # later) clock s)) = 0)"
proof (intro conjI impI)
  assume "\<forall>r\<in>set (fst (checkRateLimitCalls identifier (withClock configs clock 0) s)). allowed r"
  from checkMultipleLoop_all_allowed [OF this]
  show "checkMultipleRateLimits identifier configs clock s =
        (\<lparr>allowed = True, remaining = - 1, resetAt = Num (clock (length configs)),
          resultMessage = None\<rparr>,
         snd (checkRateLimitCalls identifier (withClock configs clock 0) s))"
    by (simp add: checkMultipleRateLimits_def)
next
  assume h: "(\<forall>r\<in>set (fst (checkRateLimitCalls identifier (withClock before clock 0) s)). allowed r)
        \<and> \<not> allowed (fst (checkRateLimit identifier config (clock (length before))
                 (snd (checkRateLimitCalls identifier (withClock before clock 0) s))))"
  then have pre: "\<forall>r\<in>set (fst (checkRateLimitCalls identifier (withClock before clock 0) s)). allowed r"
    and deny: "\<not> allowed (fst (checkRateLimit identifier config (clock (0 + length before))
                 (snd (checkRateLimitCalls identifier (withClock before clock 0) s))))"
    by simp_all
  from checkMultipleLoop_first_denied [OF pre deny]
  show eq: "checkMultipleRateLimits identifier (before @ config # later) clock s =
        checkRateLimit identifier config (clock (length before))
          (snd (checkRateLimitCalls identifier (withClock before clock 0) s))"
    by (simp add: checkMultipleRateLimits_def)
  from denied_remaining deny
  show "remaining (fst (checkMultipleRateLimits identifier (before @ config # later) clock s)) = 0"
    by (simp add: eq)
qed

text \<open>
  Two lenient policies both allow. A lenient policy followed by the strict one: the lenient
  evaluation records the timestamp 10, the strict one denies with its own message, the
  third policy is not evaluated, and the timestamp 10 stays in the log.
\<close>

theorem checkMultiple_short_circuit_witness:
  "list_all allowed
     (fst (checkRateLimitCalls ''a'' (withClock [lenientPolicy, lenientPolicy] (\<lambda>k. 10 + int k) 0) []))
   \<and> checkMultipleRateLimits ''a'' [lenientPolicy, lenientPolicy] (\<lambda>k. 10 + int k) [] =
       (\<lparr>allowed = True, remaining = - 1, resetAt = Num 12, resultMessage = None\<rparr>,
        [(''a'', \<lparr>timestamps = [10, 11], blocked = False, blockUntil = Undefined\<rparr>)])
   \<and> list_all allowed (fst (checkRateLimitCalls ''a'' (withClock [lenientPolicy] (\<lambda>k. 10) 0) []))
   \<and> \<not> allowed (fst (checkRateLimit ''a'' strictPolicy 10
            (snd (checkRateLimitCalls ''a'' (withClock [lenientPolicy] (\<lambda>k. 10) 0) []))))
   \<and> checkMultipleRateLimits ''a'' ([lenientPolicy] @ strictPolicy # [lenientPolicy]) (\<lambda>k. 10) [] =
       (\<lparr>allowed = False, remaining = 0, resetAt = Num 1010, resultMessage = Some ''strict''\<rparr>,
        [(''a'', \<lparr>timestamps = [10], blocked = True, blockUntil = Num 1010\<rparr>)])"
proof -
  have all: "\<forall>r\<in>set (fst (checkRateLimitCalls ''a'' (withClock [lenientPolicy, lenientPolicy] (\<lambda>k. 10 + int k) 0) [])).
       allowed r"
    by (simp add: rateLimit_eval lenientPolicy_def)
  have before: "\<forall>r\<in>set (fst (checkRateLimitCalls ''a'' (withClock [lenientPolicy] (\<lambda>k. 10) 0) [])). allowed r"
    by (simp add: rateLimit_eval lenientPolicy_def)
  have deny: "\<not> allowed (fst (checkRateLimit ''a'' strictPolicy 10
            (snd (checkRateLimitCalls ''a'' (withClock [lenientPolicy] (\<lambda>k. 10) 0) []))))"
    by (simp add: rateLimit_eval lenientPolicy_def strictPolicy_def)
  have one: "checkMultipleRateLimits ''a'' [lenientPolicy, lenientPolicy] (\<lambda>k. 10 + int k) [] =
       (\<lparr>allowed = True, remaining = - 1, resetAt = Num 12, resultMessage = None\<rparr>,
        [(''a'', \<lparr>timestamps = [10, 11], blocked = False, blockUntil = Undefined\<rparr>)])"
    using checkMultiple_short_circuit [THEN conjunct1, THEN mp, OF all]
    by (simp add: rateLimit_eval lenientPolicy_def)
  have two: "checkMultipleRateLimits ''a'' ([lenientPolicy] @ strictPolicy # [lenientPolicy]) (\<lambda>k. 10) [] =
       (\<lparr>allowed = False, remaining = 0, resetAt = Num 1010, resultMessage = Some ''strict''\<rparr>,
        [(''a'', \<lparr>timestamps = [10], blocked = True, blockUntil = Num 1010\<rparr>)])"
  proof -
    have "checkMultipleRateLimits ''a'' ([lenientPolicy] @ strictPolicy # [lenientPolicy]) (\<lambda>k. 10) [] =
        checkRateLimit ''a'' strictPolicy ((\<lambda>k. 10) (length [lenientPolicy]))
          (snd (checkRateLimitCalls ''a'' (withClock [lenientPolicy] (\<lambda>k. 10) 0) []))"
      by (rule checkMultiple_short_circuit [THEN conjunct2, THEN mp, OF conjI, OF before,
            THEN conjunct1]) (use deny in simp)
    then show ?thesis
      by (simp add: rateLimit_eval lenientPolicy_def strictPolicy_def)
  qed
  from all before deny one two show ?thesis
    unfolding list_all_iff by (intro conjI)
qed

subsection \<open>The cleanup sweep\<close>

lemma store_get_delete:
  "store_get (store_delete s k) key = (if key = k then None else store_get s key)"
  by (simp add: store_get_def store_delete_def delete_conv')

text \<open>What a lookup finds after the walk over \<open>entries\<close>, for any store the deletions go to.\<close>

lemma cleanupEntries_get:
  "store_get (cleanupEntries now entries s) key =
     (if \<exists>log. (key, log) \<in> set entries \<and> removable now log then None else store_get s key)"
proof (induction entries arbitrary: s)
  case Nil
  then show ?case by simp
next
  case (Cons entry entries)
  obtain k log where entry: "entry = (k, log)" by (cases entry)
  show ?case
  proof (cases "removable now log")
    case True
    then have "cleanupEntries now (entry # entries) s = cleanupEntries now entries (store_delete s k)"
      by (simp add: entry removable_def)
    then show ?thesis
      using True by (auto simp: Cons.IH entry store_get_delete)
  next
    case False
    then have "cleanupEntries now (entry # entries) s = cleanupEntries now entries s"
      by (auto simp: entry removable_def)
    then show ?thesis
      using False by (auto simp: Cons.IH entry)
  qed
qed

lemma removable_iff:
  assumes "0 \<le> now"
  shows "removable now log \<longleftrightarrow>
           (\<forall>t\<in>set (timestamps log). t \<le> now - 60 * 60 * 1000)
           \<and> \<not> (blocked log \<and> (\<exists>b. blockUntil log = Num b \<and> now < b))"
  using assms by (auto simp: removable_def isBlocked_iff list_ex_iff not_less)

text \<open>
  \<^bold>\<open>C8\<close> (cleanup safety). In a store with pairwise different keys (a \<open>Map\<close>), swept at
  a clock reading \<open>now \<ge> 0\<close>, an entry that was present is gone after the sweep if and only
  if none of its timestamps is newer than one hour before \<open>now\<close> and it is not actively
  blocked (\<open>blocked = true\<close> with \<open>blockUntil > now\<close>); otherwise it is still there,
  unchanged. So an actively blocked identifier is never removed, however old its timestamps.
\<close>

theorem cleanup_safety:
  assumes "distinct (map fst s)" and "0 \<le> now" and "store_get s key = Some log"
  shows "store_get (cleanup now s) key =
           (if (\<forall>t\<in>set (timestamps log). t \<le> now - 60 * 60 * 1000)
               \<and> \<not> (blocked log \<and> (\<exists>b. blockUntil log = Num b \<and> now < b))
            then None else Some log)"
proof -
  have "(\<exists>l. (key, l) \<in> set s \<and> removable now l) \<longleftrightarrow> removable now log"
    using assms(1,3) by (auto simp: store_get_def dest: eq_key_imp_eq_value)
  then have "store_get (cleanup now s) key = (if removable now log then None else Some log)"
    by (simp add: cleanup_def cleanupEntries_get assms(3))
  then show ?thesis
    by (simp add: removable_iff [OF assms(2)])
qed

text \<open>
  A sweep at 8000000 over four identifiers whose timestamp 1000 is older than an hour:
  the idle one is removed, the one latched until 9000000 stays.
\<close>

theorem cleanup_safety_witness:
  "distinct (map fst sweepStore) \<and> (0::int) \<le> 8000000
   \<and> store_get sweepStore ''idle'' = Some \<lparr>timestamps = [1000], blocked = False, blockUntil = Undefined\<rparr>
   \<and> store_get (cleanup 8000000 sweepStore) ''idle'' = None
   \<and> store_get sweepStore ''latched'' = Some \<lparr>timestamps = [1000], blocked = True, blockUntil = Num 9000000\<rparr>
   \<and> store_get (cleanup 8000000 sweepStore) ''latched''
       = Some \<lparr>timestamps = [1000], blocked = True, blockUntil = Num 9000000\<rparr>"
proof -
  have d: "distinct (map fst sweepStore)" by (simp add: sweepStore_def)
  have n: "(0::int) \<le> 8000000" by simp
  have idle: "store_get sweepStore ''idle'' = Some \<lparr>timestamps = [1000], blocked = False, blockUntil = Undefined\<rparr>"
    by (simp add: sweepStore_def store_get_def)
  have latched: "store_get sweepStore ''latched'' = Some \<lparr>timestamps = [1000], blocked = True, blockUntil = Num 9000000\<rparr>"
    by (simp add: sweepStore_def store_get_def)
  have "store_get (cleanup 8000000 sweepStore) ''idle'' = None"
    using cleanup_safety [OF d n idle] by simp
  moreover have "store_get (cleanup 8000000 sweepStore) ''latched''
       = Some \<lparr>timestamps = [1000], blocked = True, blockUntil = Num 9000000\<rparr>"
    using cleanup_safety [OF d n latched] by simp
  ultimately show ?thesis using d n idle latched by (intro conjI)
qed

subsection \<open>\<open>getRateLimitStatus\<close> reads only\<close>

text \<open>
  \<^bold>\<open>C9\<close> (status). \<open>getRateLimitStatus\<close> leaves the store as it found it, every entry
  included. Its \<open>current\<close> is the number of stored timestamps \<open>t\<close> of the identifier with
  \<open>now - t < windowMs\<close> (none when there is no log), its \<open>remaining\<close> is
  \<open>max(0, maxRequests - current)\<close>, and for an identifier without a stored log it returns
  \<open>current = 0\<close>, \<open>remaining = maxRequests\<close> and \<open>resetAt = now + windowMs\<close>. (Without a log
  \<open>remaining\<close> is \<open>maxRequests\<close> as given, which is \<open>max(0, maxRequests)\<close> for every
  \<open>maxRequests \<ge> 0\<close>.)
\<close>

theorem status_read_only:
  "snd (getRateLimitStatus identifier config now s) = s
   \<and> current (fst (getRateLimitStatus identifier config now s)) =
       int (length (filter (\<lambda>t. now - t < windowMs config)
         (case store_get s identifier of None \<Rightarrow> [] | Some log \<Rightarrow> timestamps log)))
   \<and> (store_get s identifier \<noteq> None \<or> 0 \<le> maxRequests config \<longrightarrow>
        remainingStatus (fst (getRateLimitStatus identifier config now s)) =
          max 0 (maxRequests config - current (fst (getRateLimitStatus identifier config now s))))
   \<and> (store_get s identifier = None \<longrightarrow>
        current (fst (getRateLimitStatus identifier config now s)) = 0
        \<and> remainingStatus (fst (getRateLimitStatus identifier config now s)) = maxRequests config
        \<and> resetAtStatus (fst (getRateLimitStatus identifier config now s)) = now + windowMs config)"
  by (cases "store_get s identifier") (simp_all add: getRateLimitStatus_def Let_def)

text \<open>
  At 5050 under the scenario policy: an identifier with the timestamps 0, 100 and 4000 has
  two of them in the window; an unknown identifier gets the clean-slate status. The store
  comes back unchanged, the timestamp 0 still in it.
\<close>

theorem status_read_only_witness:
  "store_get statusStore ''203.0.113.7'' \<noteq> None
   \<and> getRateLimitStatus ''203.0.113.7'' scenarioPolicy 5050 statusStore =
       (\<lparr>current = 2, maxStatus = 2, remainingStatus = 0, resetAtStatus = 5100\<rparr>, statusStore)
   \<and> store_get statusStore ''198.51.100.1'' = None
   \<and> getRateLimitStatus ''198.51.100.1'' scenarioPolicy 5050 statusStore =
       (\<lparr>current = 0, maxStatus = 2, remainingStatus = 2, resetAtStatus = 10050\<rparr>, statusStore)"
proof -
  have known: "store_get statusStore ''203.0.113.7'' \<noteq> None"
    and unknown: "store_get statusStore ''198.51.100.1'' = None"
    by (simp_all add: statusStore_def store_get_def)
  have "getRateLimitStatus ''203.0.113.7'' scenarioPolicy 5050 statusStore =
       (\<lparr>current = 2, maxStatus = 2, remainingStatus = 0, resetAtStatus = 5100\<rparr>, statusStore)"
    using status_read_only [of "''203.0.113.7''" scenarioPolicy 5050 statusStore] known
    by (simp add: getRateLimitStatus_def statusStore_def scenarioPolicy_def store_get_def
          js_truthy_def js_first_def)
  moreover have "getRateLimitStatus ''198.51.100.1'' scenarioPolicy 5050 statusStore =
       (\<lparr>current = 0, maxStatus = 2, remainingStatus = 2, resetAtStatus = 10050\<rparr>, statusStore)"
    using status_read_only [of "''198.51.100.1''" scenarioPolicy 5050 statusStore] unknown
    by (simp add: getRateLimitStatus_def statusStore_def scenarioPolicy_def store_get_def)
  ultimately show ?thesis using known unknown by (intro conjI)
qed

subsection \<open>\<open>getRateLimitStats\<close> counts no block\<close>

text \<open>No character of the source text is a log object, so the loop never counts.\<close>

lemma countBlocked_strings: "countBlocked now (array_from_string src) count = count"
  by (induction src arbitrary: count) (simp_all add: array_from_string_def)

text \<open>
  \<^bold>\<open>C10\<close> (\<open>getRateLimitStats\<close>). For every store, every clock reading and whatever the
  source text of \<open>store.get\<close> is, \<open>blockedCount\<close> is 0: the loop runs over the characters
  of that text, not over the entries of the store. Only \<open>totalKeys\<close> reflects the store,
  being its size.
\<close>

theorem stats_blockedCount_zero:
  "blockedCount (getRateLimitStats getSource now s) = 0
   \<and> totalKeys (getRateLimitStats getSource now s) = store_size s"
  by (simp add: getRateLimitStats_def countBlocked_strings)

text \<open>
  The swept store of above holds an identifier that is actively blocked at 8000000; the
  statistics report four keys and no blocked one.
\<close>

theorem stats_blockedCount_zero_witness:
  "isBlocked \<lparr>timestamps = [1000], blocked = True, blockUntil = Num 9000000\<rparr> 8000000
   \<and> store_get sweepStore ''latched'' = Some \<lparr>timestamps = [1000], blocked = True, blockUntil = Num 9000000\<rparr>
   \<and> getRateLimitStats ''get(key) { return this.store.get(key); }'' 8000000 sweepStore
       = \<lparr>totalKeys = 4, blockedCount = 0\<rparr>"
  using stats_blockedCount_zero [of "''get(key) { return this.store.get(key); }''" 8000000 sweepStore]
  by (cases "getRateLimitStats ''get(key) { return this.store.get(key); }'' 8000000 sweepStore")
     (simp add: sweepStore_def store_get_def store_size_def isBlocked_def js_truthy_def js_gt_def)

subsection \<open>Policies that are not positive\<close>

text \<open>
  \<open>checkRateLimit\<close> has no \<open>throw\<close> and no test of \<open>maxRequests\<close> or \<open>windowMs\<close> other
  than the comparisons of the algorithm, which is why its model is a total function into
  decisions. The lemmas follow the two comparisons with values that are not positive.
\<close>

lemma nonpositive_maxRequests_denies:
  assumes "maxRequests config \<le> 0"
  shows "\<not> allowed (fst (checkRateLimit identifier config now s))
         \<and> remaining (fst (checkRateLimit identifier config now s)) = 0"
proof -
  have "\<not> int (length (filter (\<lambda>t. now - t < windowMs config) (timestamps (currentLog s identifier))))
          < maxRequests config"
    using assms by simp
  then show ?thesis
    by (simp add: checkRateLimit_def currentLog_def Let_def)
qed

lemma nonpositive_window_admits:
  assumes m: "1 \<le> maxRequests config" and w: "windowMs config \<le> 0"
    and free: "\<not> blocked (currentLog s identifier)"
    and past: "\<forall>t\<in>set (timestamps (currentLog s identifier)). t \<le> now"
  shows "checkRateLimit identifier config now s =
           (\<lparr>allowed = True, remaining = maxRequests config - 1,
             resetAt = Num (now + windowMs config), resultMessage = None\<rparr>,
            store_set s identifier ((currentLog s identifier)\<lparr>timestamps := [now], blocked := False\<rparr>))"
proof -
  have nb: "\<not> isBlocked (currentLog s identifier) now"
    using free by (simp add: isBlocked_def)
  have "\<forall>t\<in>set (timestamps (currentLog s identifier)). \<not> now - t < windowMs config"
    using past w by fastforce
  then have purged: "filter (\<lambda>t. now - t < windowMs config) (timestamps (currentLog s identifier)) = []"
    by (simp add: filter_empty_conv)
  have room: "int (length (filter (\<lambda>t. now - t < windowMs config) (timestamps (currentLog s identifier))))
                < maxRequests config"
    using m by (simp add: purged)
  show ?thesis
    using checkRateLimit_admit [OF nb refl room]
    by (simp add: purged js_plus_def js_first_def)
qed

lemma nonpositive_window_admits_all:
  assumes "1 \<le> maxRequests config" and "windowMs config \<le> 0"
    and "\<not> blocked (currentLog s identifier)"
    and "\<forall>t\<in>set (timestamps (currentLog s identifier)). \<forall>now\<in>set nows. t \<le> now"
    and "sorted nows"
  shows "\<forall>r\<in>set (fst (checkRateLimitCalls identifier (map (\<lambda>t. (config, t)) nows) s)). allowed r"
  using assms(3-5)
proof (induction nows arbitrary: s)
  case Nil
  then show ?case by simp
next
  case (Cons now nows)
  let ?s' = "store_set s identifier ((currentLog s identifier)\<lparr>timestamps := [now], blocked := False\<rparr>)"
  have past: "\<forall>t\<in>set (timestamps (currentLog s identifier)). t \<le> now"
    using Cons.prems(2) by simp
  have step: "checkRateLimit identifier config now s =
           (\<lparr>allowed = True, remaining = maxRequests config - 1,
             resetAt = Num (now + windowMs config), resultMessage = None\<rparr>, ?s')"
    by (rule nonpositive_window_admits [OF assms(1,2) Cons.prems(1) past])
  have "\<not> blocked (currentLog ?s' identifier)"
    and "\<forall>t\<in>set (timestamps (currentLog ?s' identifier)). \<forall>now\<in>set nows. t \<le> now"
    and "sorted nows"
    using Cons.prems(3) by (simp_all add: currentLog_set)
  from Cons.IH [OF this] show ?case
    by (simp add: step case_prod_beta)
qed

text \<open>
  \<^bold>\<open>C5\<close> as the specification states it fails: \<open>checkRateLimit\<close> does not reject a policy
  whose \<open>maxRequests\<close> or \<open>windowMs\<close> is not positive. With \<open>maxRequests = 0\<close> the first
  use returns a denial, computed from an empty log (\<open>resetAt\<close> is \<open>NaN\<close>) and written to the
  store; with \<open>windowMs = 0\<close> it returns an admission.
\<close>

theorem invalid_policy_counterexample:
  "checkRateLimit ''203.0.113.7'' \<lparr>maxRequests = 0, windowMs = 5000, message = None\<rparr> 1000 [] =
     (\<lparr>allowed = False, remaining = 0, resetAt = NaN,
       resultMessage = Some ''Rate limit exceeded. Please try again later.''\<rparr>,
      [(''203.0.113.7'', \<lparr>timestamps = [], blocked = True, blockUntil = NaN\<rparr>)])
   \<and> checkRateLimit ''203.0.113.7'' \<lparr>maxRequests = 1, windowMs = 0, message = None\<rparr> 1000 [] =
     (\<lparr>allowed = True, remaining = 0, resetAt = Num 1000, resultMessage = None\<rparr>,
      [(''203.0.113.7'', \<lparr>timestamps = [1000], blocked = False, blockUntil = Undefined\<rparr>)])"
  by (simp add: rateLimit_eval)

text \<open>
  \<^bold>\<open>C5\<close>, amended: \<open>checkRateLimit\<close> validates nothing and returns an admission decision
  for every policy. With \<open>maxRequests \<le> 0\<close> every call, in every store and at every clock
  reading, is Denied with \<open>remaining = 0\<close>; with \<open>maxRequests \<ge> 1\<close> and \<open>windowMs \<le> 0\<close>
  every call of a sequence at non-decreasing clock readings for a first-seen identifier is
  Allowed.
\<close>

theorem invalid_policy_decides:
  "(maxRequests config \<le> 0 \<longrightarrow>
      \<not> allowed (fst (checkRateLimit identifier config now s))
      \<and> remaining (fst (checkRateLimit identifier config now s)) = 0)
   \<and> (1 \<le> maxRequests config \<and> windowMs config \<le> 0 \<and> store_get s identifier = None \<and> sorted nows \<longrightarrow>
      (\<forall>r\<in>set (fst (checkRateLimitCalls identifier (map (\<lambda>t. (config, t)) nows) s)). allowed r))"
proof (intro conjI impI)
  assume "maxRequests config \<le> 0"
  from nonpositive_maxRequests_denies [OF this]
  show "\<not> allowed (fst (checkRateLimit identifier config now s))"
    and "remaining (fst (checkRateLimit identifier config now s)) = 0"
    by simp_all
next
  assume h: "1 \<le> maxRequests config \<and> windowMs config \<le> 0 \<and> store_get s identifier = None \<and> sorted nows"
  then have new: "currentLog s identifier = newLog" by (simp add: currentLog_def)
  have "\<not> blocked (currentLog s identifier)"
    and "\<forall>t\<in>set (timestamps (currentLog s identifier)). \<forall>now\<in>set nows. t \<le> now"
    by (simp_all add: new newLog_def)
  with h show "\<forall>r\<in>set (fst (checkRateLimitCalls identifier (map (\<lambda>t. (config, t)) nows) s)). allowed r"
    by (intro nonpositive_window_admits_all) simp_all
qed

text \<open>One denial under \<open>maxRequests = 0\<close>; three admissions in a row under \<open>{maxRequests: 1, windowMs: 0}\<close>.\<close>

theorem invalid_policy_decides_witness:
  "maxRequests \<lparr>maxRequests = 0, windowMs = 5000, message = None\<rparr> \<le> 0
   \<and> \<not> allowed (fst (checkRateLimit ''203.0.113.7'' \<lparr>maxRequests = 0, windowMs = 5000, message = None\<rparr> 1000 []))
   \<and> remaining (fst (checkRateLimit ''203.0.113.7'' \<lparr>maxRequests = 0, windowMs = 5000, message = None\<rparr> 1000 [])) = 0
   \<and> 1 \<le> maxRequests \<lparr>maxRequests = 1, windowMs = 0, message = None\<rparr>
   \<and> windowMs \<lparr>maxRequests = 1, windowMs = 0, message = None\<rparr> \<le> 0
   \<and> store_get [] ''203.0.113.7'' = None \<and> sorted [1000, 1000, 1001 :: int]
   \<and> list_all allowed (fst (checkRateLimitCalls ''203.0.113.7''
          (map (\<lambda>t. (\<lparr>maxRequests = 1, windowMs = 0, message = None\<rparr>, t)) [1000, 1000, 1001]) []))"
proof -
  have a: "maxRequests \<lparr>maxRequests = 0, windowMs = 5000, message = None\<rparr> \<le> 0" by simp
  have b: "1 \<le> maxRequests \<lparr>maxRequests = 1, windowMs = 0, message = None\<rparr>
     \<and> windowMs \<lparr>maxRequests = 1, windowMs = 0, message = None\<rparr> \<le> 0
     \<and> store_get [] ''203.0.113.7'' = None \<and> sorted [1000, 1000, 1001 :: int]"
    by (simp add: store_get_def)
  note first = invalid_policy_decides [THEN conjunct1, THEN mp, OF a,
      of "''203.0.113.7''" 1000 "[]"]
  note second = invalid_policy_decides [THEN conjunct2, THEN mp, OF b]
  from a b first second show ?thesis
    unfolding list_all_iff by (intro conjI) simp_all
qed

end
